theory Spec2Isabelle
  imports Main "HOL-Library.Sublist"
begin

section \<open>Python values and the operations main.py applies to them\<close>

text \<open>
  A Python \<open>str\<close> is a sequence of Unicode code points and \<open>len\<close> counts code points,
  so text is a list of code points. \<open>str\<close> embeds the ASCII literals of the source.
\<close>

type_synonym pystr = "nat list"

definition str :: "string \<Rightarrow> pystr" where
  "str s = map of_char s"

text \<open>
  What \<open>response.json()\<close> returns: \<open>None\<close>, a bool, an int, a float, a str, a list or a
  dict with str keys (in insertion order; a lookup takes the first binding of a key).
\<close>

datatype pyval =
    PNone
  | PBool bool
  | PInt int
  | PFloat int int
  | PStr pystr
  | PList "pyval list"
  | PDict "(pystr \<times> pyval) list"

datatype exn =
    RequestException
  | JSONDecodeError
  | TypeError
  | KeyError
  | UnboundLocalError

fun py_startswith :: "pystr \<Rightarrow> pystr \<Rightarrow> bool" where
  "py_startswith [] s = True"
| "py_startswith (k # ks) [] = False"
| "py_startswith (k # ks) (c # cs) = (k = c \<and> py_startswith ks cs)"

fun py_substr :: "pystr \<Rightarrow> pystr \<Rightarrow> bool" where
  "py_substr k [] = (k = [])"
| "py_substr k (c # cs) = (py_startswith k (c # cs) \<or> py_substr k cs)"

text \<open>\<open>key in v\<close> for a str \<open>key\<close>: key membership in a dict, element equality in a list,
  substring test in a str, TypeError for a value that is not iterable.\<close>

fun py_contains :: "pystr \<Rightarrow> pyval \<Rightarrow> exn + bool" where
  "py_contains key (PDict d) = Inr (key \<in> set (map fst d))"
| "py_contains key (PList xs) = Inr (PStr key \<in> set xs)"
| "py_contains key (PStr s) = Inr (py_substr key s)"
| "py_contains key v = Inl TypeError"

text \<open>\<open>v[key]\<close> for a str \<open>key\<close>: KeyError for a dict without the key, TypeError for
  every other value (list and str indices must be integers, the rest is not
  subscriptable).\<close>

fun py_getitem :: "pyval \<Rightarrow> pystr \<Rightarrow> exn + pyval" where
  "py_getitem (PDict d) key =
     (case map_of d key of None \<Rightarrow> Inl KeyError | Some v \<Rightarrow> Inr v)"
| "py_getitem v key = Inl TypeError"

fun py_len :: "pyval \<Rightarrow> exn + nat" where
  "py_len (PDict d) = Inr (length d)"
| "py_len (PList xs) = Inr (length xs)"
| "py_len (PStr s) = Inr (length s)"
| "py_len v = Inl TypeError"

text \<open>The values a \<open>for\<close> loop draws from \<open>v\<close>: the elements of a list, the keys of a
  dict, the one-character strings of a str.\<close>

fun py_iter :: "pyval \<Rightarrow> exn + pyval list" where
  "py_iter (PList xs) = Inr xs"
| "py_iter (PDict d) = Inr (map (\<lambda>kv. PStr (fst kv)) d)"
| "py_iter (PStr s) = Inr (map (\<lambda>c. PStr [c]) s)"
| "py_iter v = Inl TypeError"

text \<open>\<open>v == COLLECTION_ID\<close>, where \<open>os.getenv\<close> gave a str or \<open>None\<close>.\<close>

fun py_eq_env :: "pyval \<Rightarrow> pystr option \<Rightarrow> bool" where
  "py_eq_env v None = (v = PNone)"
| "py_eq_env v (Some s) = (v = PStr s)"

section \<open>check_nft\<close>

record response =
  status_code :: int
  json_body :: "pyval option"

datatype log_entry =
    LogReceived nat pystr
  | LogFound "pystr option"
  | LogSaveError

text \<open>The inner loop, lines 91-94: \<open>Inr True\<close> is the \<open>return True\<close>, \<open>Inr False\<close> the
  loop running to its end.\<close>

fun scan_groups :: "pystr option \<Rightarrow> pyval list \<Rightarrow> exn + bool" where
  "scan_groups cid [] = Inr False"
| "scan_groups cid (grp # groups) =
     (case py_getitem grp (str ''group_key'') of
        Inl e \<Rightarrow> Inl e
      | Inr k \<Rightarrow>
          if k = PStr (str ''collection'') then
            (case py_getitem grp (str ''group_value'') of
               Inl e \<Rightarrow> Inl e
             | Inr v \<Rightarrow> if py_eq_env v cid then Inr True else scan_groups cid groups)
          else scan_groups cid groups)"

text \<open>The outer loop, lines 89-94.\<close>

fun scan_nfts :: "pystr option \<Rightarrow> pyval list \<Rightarrow> exn + bool" where
  "scan_nfts cid [] = Inr False"
| "scan_nfts cid (nft # nfts) =
     (case py_contains (str ''grouping'') nft of
        Inl e \<Rightarrow> Inl e
      | Inr False \<Rightarrow> scan_nfts cid nfts
      | Inr True \<Rightarrow>
          (case py_getitem nft (str ''grouping'') of
             Inl e \<Rightarrow> Inl e
           | Inr g \<Rightarrow>
               (case py_iter g of
                  Inl e \<Rightarrow> Inl e
                | Inr groups \<Rightarrow>
                    (case scan_groups cid groups of
                       Inl e \<Rightarrow> Inl e
                     | Inr True \<Rightarrow> Inr True
                     | Inr False \<Rightarrow> scan_nfts cid nfts))))"

text \<open>Lines 86-95, from the parsed \<open>items\<close> on: the result and the log records.\<close>

definition scan_items :: "pystr option \<Rightarrow> pystr \<Rightarrow> pyval \<Rightarrow> (exn + bool) \<times> log_entry list" where
  "scan_items cid wallet_address nfts =
     (case py_len nfts of
        Inl e \<Rightarrow> (Inl e, [])
      | Inr n \<Rightarrow>
          (case py_iter nfts of
             Inl e \<Rightarrow> (Inl e, [LogReceived n wallet_address])
           | Inr xs \<Rightarrow>
               (case scan_nfts cid xs of
                  Inl e \<Rightarrow> (Inl e, [LogReceived n wallet_address])
                | Inr True \<Rightarrow> (Inr True, [LogReceived n wallet_address, LogFound cid])
                | Inr False \<Rightarrow> (Inr False, [LogReceived n wallet_address]))))"

text \<open>Lines 84-95, from the parsed body on.\<close>

definition scan_data :: "pystr option \<Rightarrow> pystr \<Rightarrow> pyval \<Rightarrow> (exn + bool) \<times> log_entry list" where
  "scan_data cid wallet_address data =
     (case py_contains (str ''result'') data of
        Inl e \<Rightarrow> (Inl e, [])
      | Inr False \<Rightarrow> (Inr False, [])
      | Inr True \<Rightarrow>
          (case py_getitem data (str ''result'') of
             Inl e \<Rightarrow> (Inl e, [])
           | Inr res \<Rightarrow>
               (case py_contains (str ''items'') res of
                  Inl e \<Rightarrow> (Inl e, [])
                | Inr False \<Rightarrow> (Inr False, [])
                | Inr True \<Rightarrow>
                    (case py_getitem res (str ''items'') of
                       Inl e \<Rightarrow> (Inl e, [])
                     | Inr nfts \<Rightarrow> scan_items cid wallet_address nfts))))"

text \<open>
  \<open>check_nft\<close>. The first argument is \<open>COLLECTION_ID\<close>; the second is what
  \<open>requests.post\<close> does for this call: it raises, or it returns a response.
  \<open>json_body = None\<close> is a body that \<open>response.json()\<close> cannot decode.
\<close>

definition check_nft :: "pystr option \<Rightarrow> exn + response \<Rightarrow> pystr \<Rightarrow> (exn + bool) \<times> log_entry list" where
  "check_nft cid posted wallet_address =
     (case posted of
        Inl e \<Rightarrow> (Inl e, [])
      | Inr resp \<Rightarrow>
          if status_code resp = 200 then
            (case json_body resp of
               None \<Rightarrow> (Inl JSONDecodeError, [])
             | Some data \<Rightarrow> scan_data cid wallet_address data)
          else (Inr False, []))"

section \<open>The wallets table\<close>

text \<open>
  A row of the table that \<open>init_db\<close> creates: \<open>id INTEGER PRIMARY KEY AUTOINCREMENT\<close>,
  \<open>wallet_address TEXT UNIQUE\<close>, \<open>has_nft INTEGER\<close>. The table is the list of its rows in
  insertion order; \<open>seq\<close> is the largest id the table has ever handed out, which
  AUTOINCREMENT keeps beside the table. Ids are unbounded here (the engine's are 63 bits).
\<close>

record wallet_row =
  col_id :: nat
  col_wallet_address :: pystr
  col_has_nft :: int

record store =
  rows :: "wallet_row list"
  seq :: nat

text \<open>\<open>CREATE TABLE IF NOT EXISTS\<close>: an empty table when the file has none, the table as
  it is otherwise.\<close>

fun init_db :: "store option \<Rightarrow> store" where
  "init_db None = \<lparr>rows = [], seq = 0\<rparr>"
| "init_db (Some s) = s"

definition next_rowid :: "store \<Rightarrow> nat" where
  "next_rowid s = fold max (map col_id (rows s)) (seq s) + 1"

text \<open>
  The statement of lines 48-52: when a row has the address, its \<open>has_nft\<close> is set; else a
  row is appended under a fresh id. Whether the engine advances the sequence also when
  the conflict branch is taken is the flag \<open>adv\<close>; SQLite draws the new id before it checks
  the constraint, so it does.
\<close>

definition upsert :: "bool \<Rightarrow> pystr \<Rightarrow> int \<Rightarrow> store \<Rightarrow> store" where
  "upsert adv a v s =
     (if a \<in> set (map col_wallet_address (rows s)) then
        s\<lparr>rows := map (\<lambda>r. if col_wallet_address r = a then r\<lparr>col_has_nft := v\<rparr> else r) (rows s),
          seq := (if adv then next_rowid s else seq s)\<rparr>
      else
        s\<lparr>rows := rows s @ [\<lparr>col_id = next_rowid s, col_wallet_address = a, col_has_nft = v\<rparr>],
          seq := next_rowid s\<rparr>)"

text \<open>What the storage does during one call of \<open>save_wallet\<close>: nothing wrong, or
  \<open>sqlite3.connect\<close>, \<open>cursor.execute\<close> or \<open>conn.commit\<close> raises an \<open>sqlite3.Error\<close>.\<close>

datatype db_fault = NoFault | ConnectFails | ExecuteFails | CommitFails

text \<open>
  \<open>save_wallet\<close>: the exception that leaves the function if any, the table afterwards and
  the log records. When \<open>connect\<close> raises, the handler logs, and the \<open>finally\<close> clause then
  reads \<open>conn\<close>, which was never bound. When \<open>execute\<close> or \<open>commit\<close> raises, nothing was
  committed and \<open>close\<close> drops the open transaction.
\<close>

fun save_wallet :: "bool \<Rightarrow> db_fault \<Rightarrow> pystr \<Rightarrow> bool \<Rightarrow> store \<Rightarrow> exn option \<times> store \<times> log_entry list" where
  "save_wallet adv NoFault wallet_address has_nft s =
     (None, upsert adv wallet_address (of_bool has_nft) s, [])"
| "save_wallet adv ConnectFails wallet_address has_nft s =
     (Some UnboundLocalError, s, [LogSaveError])"
| "save_wallet adv ExecuteFails wallet_address has_nft s = (None, s, [LogSaveError])"
| "save_wallet adv CommitFails wallet_address has_nft s = (None, s, [LogSaveError])"

section \<open>check_wallet\<close>

text \<open>\<open>str.isspace\<close> of one code point, and \<open>str.strip()\<close>.\<close>

definition py_isspace :: "nat \<Rightarrow> bool" where
  "py_isspace c \<longleftrightarrow>
     (9 \<le> c \<and> c \<le> 13) \<or> (28 \<le> c \<and> c \<le> 32) \<or> c = 133 \<or> c = 160 \<or> c = 5760 \<or>
     (8192 \<le> c \<and> c \<le> 8202) \<or> c = 8232 \<or> c = 8233 \<or> c = 8239 \<or> c = 8287 \<or> c = 12288"

definition py_strip :: "pystr \<Rightarrow> pystr" where
  "py_strip s = rev (dropWhile py_isspace (rev (dropWhile py_isspace s)))"

text \<open>The payload of lines 70-79.\<close>

record payload =
  rpc_method :: pystr
  ownerAddress :: pystr
  page :: nat
  limit :: nat

definition payload_of :: "pystr \<Rightarrow> payload" where
  "payload_of wallet_address =
     \<lparr>rpc_method = str ''getAssetsByOwner'', ownerAddress = wallet_address, page = 1, limit = 1000\<rparr>"

datatype reply = ReplyInvalid | ReplyChecking pystr | ReplyHasNft | ReplyNoNft

text \<open>What one request meets: the configured collection, what \<open>requests.post\<close> does,
  what the storage does.\<close>

record env =
  COLLECTION_ID :: "pystr option"
  posted :: "exn + response"
  fault :: db_fault
  advances :: bool

text \<open>What a request leaves behind: the table, the messages sent to the user, the
  requests sent to the remote service, the log.\<close>

record bot =
  wallets :: store
  replies :: "reply list"
  posts :: "payload list"
  logged :: "log_entry list"

text \<open>How a call of \<open>check_wallet\<close> ends: the early return of line 122, the end of the
  function after the message of line 130 or 132, or an exception leaving it. The second
  argument is \<open>update.message.text\<close>; \<open>reply_text\<close> is taken to deliver its message, and the
  request of \<open>check_nft\<close> is recorded where \<open>check_nft\<close> is called.\<close>

datatype outcome = Rejected | Reported bool | Escaped exn

definition check_wallet :: "env \<Rightarrow> pystr \<Rightarrow> bot \<Rightarrow> outcome \<times> bot" where
  "check_wallet e text st =
     (let wallet_address = py_strip text in
      if length wallet_address < 32 \<or> length wallet_address > 44 then
        (Rejected, st\<lparr>replies := replies st @ [ReplyInvalid]\<rparr>)
      else
        (let st1 = st\<lparr>replies := replies st @ [ReplyChecking wallet_address]\<rparr>;
             (res, lg) = check_nft (COLLECTION_ID e) (posted e) wallet_address;
             st2 = st1\<lparr>posts := posts st1 @ [payload_of wallet_address],
                       logged := logged st1 @ lg\<rparr>
         in case res of
              Inl x \<Rightarrow> (Escaped x, st2)
            | Inr has_nft \<Rightarrow>
                (let (raised, db, lg2) =
                       save_wallet (advances e) (fault e) wallet_address has_nft (wallets st2);
                     st3 = st2\<lparr>wallets := db, logged := logged st2 @ lg2\<rparr>
                 in case raised of
                      Some x \<Rightarrow> (Escaped x, st3)
                    | None \<Rightarrow>
                        (Reported has_nft,
                         st3\<lparr>replies := replies st3 @
                                [if has_nft then ReplyHasNft else ReplyNoNft]\<rparr>))))"

section \<open>Predicates and sample data for the properties\<close>

text \<open>What the table keeps: one row per address (the \<open>UNIQUE\<close> constraint), ids growing in
  insertion order, and no id above the sequence.\<close>

definition store_ok :: "store \<Rightarrow> bool" where
  "store_ok s \<longleftrightarrow>
     distinct (map col_wallet_address (rows s)) \<and>
     sorted_wrt (<) (map col_id (rows s)) \<and>
     list_all (\<lambda>r. col_id r \<le> seq s) (rows s)"


text \<open>A sequence of \<open>save_wallet\<close> calls, each with what the storage does during it; a
  call that raises leaves the table to the next call as it is.\<close>

fun run_saves :: "bool \<Rightarrow> (db_fault \<times> pystr \<times> bool) list \<Rightarrow> store \<Rightarrow> store" where
  "run_saves adv [] s = s"
| "run_saves adv ((f, a, b) # calls) s = run_saves adv calls (fst (snd (save_wallet adv f a b s)))"

text \<open>The part of a row that is fixed when the row is inserted.\<close>

definition row_key :: "wallet_row \<Rightarrow> nat \<times> pystr" where
  "row_key r = (col_id r, col_wallet_address r)"

text \<open>The rows of an address.\<close>

definition records_of :: "pystr \<Rightarrow> store \<Rightarrow> wallet_row list" where
  "records_of a s = filter (\<lambda>r. col_wallet_address r = a) (rows s)"

text \<open>An entry of \<open>grouping\<close> as the remote service sends it: an object with a
  \<open>group_key\<close> and a \<open>group_value\<close>.\<close>

fun wf_group :: "pyval \<Rightarrow> bool" where
  "wf_group (PDict d) =
     (map_of d (str ''group_key'') \<noteq> None \<and> map_of d (str ''group_value'') \<noteq> None)"
| "wf_group v = False"

text \<open>An asset as the remote service sends it: an object whose \<open>grouping\<close>, when it has
  one, is a list of such entries.\<close>

fun wf_asset :: "pyval \<Rightarrow> bool" where
  "wf_asset (PDict d) =
     (case map_of d (str ''grouping'') of
        None \<Rightarrow> True
      | Some (PList gs) \<Rightarrow> list_all wf_group gs
      | Some v \<Rightarrow> False)"
| "wf_asset v = False"

text \<open>The entry is a tag of kind "collection" whose value is the identifier, both compared
  as they are.\<close>

fun is_collection_tag :: "pystr \<Rightarrow> pyval \<Rightarrow> bool" where
  "is_collection_tag cid (PDict d) =
     (map_of d (str ''group_key'') = Some (PStr (str ''collection'')) \<and>
      map_of d (str ''group_value'') = Some (PStr cid))"
| "is_collection_tag cid v = False"

text \<open>The asset carries such a tag.\<close>

fun carries_tag :: "pystr \<Rightarrow> pyval \<Rightarrow> bool" where
  "carries_tag cid (PDict d) =
     (case map_of d (str ''grouping'') of
        Some (PList gs) \<Rightarrow> list_ex (is_collection_tag cid) gs
      | _ \<Rightarrow> False)"
| "carries_tag cid v = False"

text \<open>Sample data: tags, assets, a response with the result envelope, item lists with and
  without a matching tag, calls, a table, addresses, a fresh bot and an environment.\<close>

definition tag :: "string \<Rightarrow> string \<Rightarrow> pyval" where
  "tag k v = PDict [(str ''group_key'', PStr (str k)), (str ''group_value'', PStr (str v))]"

definition asset :: "string \<Rightarrow> pyval list \<Rightarrow> pyval" where
  "asset i gs = PDict [(str ''id'', PStr (str i)), (str ''grouping'', PList gs)]"

definition bare_asset :: "string \<Rightarrow> pyval" where
  "bare_asset i = PDict [(str ''id'', PStr (str i))]"

definition envelope :: "pyval list \<Rightarrow> response" where
  "envelope items =
     \<lparr>status_code = 200,
      json_body = Some (PDict [(str ''jsonrpc'', PStr (str ''2.0'')),
                               (str ''result'', PDict [(str ''total'', PInt (int (length items))),
                                                       (str ''items'', PList items)])])\<rparr>"

definition items_miss :: "pyval list" where
  "items_miss = [bare_asset ''a'',
                 asset ''b'' [tag ''creator'' ''Col1'', tag ''collection'' ''col1'', tag ''collection'' ''Col1 '']]"

definition items_hit :: "pyval list" where
  "items_hit = [bare_asset ''a'', asset ''c'' [tag ''collection'' ''Col1'']]"

definition example_calls :: "(db_fault \<times> pystr \<times> bool) list" where
  "example_calls =
     [(NoFault, str ''A'', True), (CommitFails, str ''C'', True), (ConnectFails, str ''D'', True),
      (NoFault, str ''B'', False), (ExecuteFails, str ''B'', True), (NoFault, str ''A'', False)]"

definition example_store :: store where
  "example_store =
     \<lparr>rows = [\<lparr>col_id = 1, col_wallet_address = str ''B'', col_has_nft = 1\<rparr>,
              \<lparr>col_id = 4, col_wallet_address = str ''A'', col_has_nft = 0\<rparr>],
      seq = 6\<rparr>"

definition example_address :: pystr where
  "example_address = str ''Gh9ZwEmdLJ8DscKNTkTqPbNwLNNBjuSzaG9Vp2KGtKJr''"

definition padded_address :: pystr where
  "padded_address = str ''  '' @ example_address @ [10]"

definition short_padded :: pystr where
  "short_padded = str ''Gh9ZwEmdLJ8DscKNTkTqPbNwLNNBjuS ''"

definition bot0 :: bot where
  "bot0 = \<lparr>wallets = init_db None, replies = [], posts = [], logged = []\<rparr>"

definition example_env :: "exn + response \<Rightarrow> db_fault \<Rightarrow> env" where
  "example_env p f = \<lparr>COLLECTION_ID = Some (str ''Col1''), posted = p, fault = f, advances = True\<rparr>"


section \<open>The wallets table: fresh ids, uniqueness, rows kept\<close>

lemma fold_max_lower: "(a::nat) \<le> fold max xs a"
  by (induction xs arbitrary: a) (auto intro: order_trans[OF max.cobounded2])

lemma fold_max_upper: "x \<in> set xs \<Longrightarrow> (x::nat) \<le> fold max xs a"
proof (induction xs arbitrary: a)
  case Nil then show ?case by simp
next
  case (Cons y ys)
  show ?case
  proof (cases "x = y")
    case True
    have "max y a \<le> fold max ys (max y a)" by (rule fold_max_lower)
    with True show ?thesis by simp
  next
    case False
    with Cons show ?thesis by simp
  qed
qed

lemma next_rowid_above_seq: "seq s < next_rowid s"
  using fold_max_lower[of "seq s" "map col_id (rows s)"] by (simp add: next_rowid_def)

lemma next_rowid_above_ids: "r \<in> set (rows s) \<Longrightarrow> col_id r < next_rowid s"
  using fold_max_upper[of "col_id r" "map col_id (rows s)" "seq s"] by (simp add: next_rowid_def)

lemma key_update:
  "row_key \<circ> (\<lambda>r. if col_wallet_address r = a then r\<lparr>col_has_nft := v\<rparr> else r) = row_key"
  by (auto simp: fun_eq_iff row_key_def)

lemma addr_update:
  "col_wallet_address \<circ> (\<lambda>r. if col_wallet_address r = a then r\<lparr>col_has_nft := v\<rparr> else r) = col_wallet_address"
  by (auto simp: fun_eq_iff)

lemma id_update:
  "col_id \<circ> (\<lambda>r. if col_wallet_address r = a then r\<lparr>col_has_nft := v\<rparr> else r) = col_id"
  by (auto simp: fun_eq_iff)

lemma upsert_keys:
  "map row_key (rows (upsert adv a v s)) =
     (if a \<in> set (map col_wallet_address (rows s)) then map row_key (rows s)
      else map row_key (rows s) @ [(next_rowid s, a)])"
  by (simp add: upsert_def key_update) (simp add: row_key_def)

lemma upsert_seq: "seq s \<le> seq (upsert adv a v s)"
  using next_rowid_above_seq[of s] by (simp add: upsert_def)

lemma upsert_ok: 
  assumes "store_ok s" shows "store_ok (upsert adv a v s)"
proof (cases "a \<in> set (map col_wallet_address (rows s))")
  case True
  have le: "seq s \<le> next_rowid s" using next_rowid_above_seq[of s] by simp
  from assms True show ?thesis
    using le
    by (auto simp: store_ok_def upsert_def addr_update id_update list_all_iff)
next
  case False
  have above: "\<forall>r\<in>set (rows s). col_id r < next_rowid s"
    using next_rowid_above_ids by blast
  from assms False above show ?thesis
    by (auto simp: store_ok_def upsert_def list_all_iff sorted_wrt_append less_imp_le)
qed

lemma save_wallet_store:
  "fst (snd (save_wallet adv f a b s)) = (if f = NoFault then upsert adv a (of_bool b) s else s)"
  by (cases f) simp_all

lemma save_wallet_ok: "store_ok s \<Longrightarrow> store_ok (fst (snd (save_wallet adv f a b s)))"
  by (simp add: save_wallet_store upsert_ok)

lemma save_wallet_keys:
  "\<exists>new. map row_key (rows (fst (snd (save_wallet adv f a b s)))) = map row_key (rows s) @ new
          \<and> (\<forall>k\<in>set new. seq s < fst k)
          \<and> seq s \<le> seq (fst (snd (save_wallet adv f a b s)))"
proof (cases "f = NoFault \<and> a \<notin> set (map col_wallet_address (rows s))")
  case True
  have "map row_key (rows (upsert adv a (of_bool b) s)) = map row_key (rows s) @ [(next_rowid s, a)]"
    using True by (simp add: upsert_keys)
  moreover have "\<forall>k\<in>set [(next_rowid s, a)]. seq s < fst k"
    by (simp add: next_rowid_above_seq)
  ultimately show ?thesis
    using True upsert_seq[of s adv a "of_bool b"] by (auto simp: save_wallet_store)
next
  case False
  have "map row_key (rows (fst (snd (save_wallet adv f a b s)))) = map row_key (rows s) @ []"
    using False by (auto simp: save_wallet_store upsert_keys)
  moreover have "seq s \<le> seq (fst (snd (save_wallet adv f a b s)))"
    by (simp add: save_wallet_store upsert_seq)
  ultimately show ?thesis by (metis empty_iff list.set(1))
qed

lemma run_saves_ok: "store_ok s \<Longrightarrow> store_ok (run_saves adv calls s)"
  by (induction adv calls s rule: run_saves.induct) (simp_all add: save_wallet_ok)

lemma run_saves_keys:
  "\<exists>new. map row_key (rows (run_saves adv calls s)) = map row_key (rows s) @ new
          \<and> (\<forall>k\<in>set new. seq s < fst k)
          \<and> seq s \<le> seq (run_saves adv calls s)"
proof (induction adv calls s rule: run_saves.induct)
  case (1 adv s)
  show ?case by simp
next
  case (2 adv f a b calls s)
  let ?t = "fst (snd (save_wallet adv f a b s))"
  obtain n1 where n1: "map row_key (rows ?t) = map row_key (rows s) @ n1"
      "\<forall>k\<in>set n1. seq s < fst k" "seq s \<le> seq ?t"
    using save_wallet_keys[of adv f a b s] by blast
  obtain n2 where n2: "map row_key (rows (run_saves adv calls ?t)) = map row_key (rows ?t) @ n2"
      "\<forall>k\<in>set n2. seq ?t < fst k" "seq ?t \<le> seq (run_saves adv calls ?t)"
    using "2.IH" by blast
  have "map row_key (rows (run_saves adv ((f, a, b) # calls) s)) = map row_key (rows s) @ (n1 @ n2)"
    using n1(1) n2(1) by simp
  moreover have "\<forall>k\<in>set (n1 @ n2). seq s < fst k"
    using n1(2,3) n2(2) by auto
  moreover have "seq s \<le> seq (run_saves adv ((f, a, b) # calls) s)"
    using n1(3) n2(3) by simp
  ultimately show ?case by blast
qed

text \<open>Claim C5. After any sequence of \<open>save_wallet\<close> calls on a table that satisfies
  \<open>store_ok\<close> (the empty table of \<open>init_db\<close> does), no two rows have the same address; the
  rows that were there are still there, in place, with their id and address; the ids grow
  in insertion order; every row added has an id above the sequence as it was, hence above
  every id handed out before; and a call for an address that has a row adds no row.\<close>

theorem wallets_unique_kept_and_numbered:
  assumes "store_ok s"
  shows "distinct (map col_wallet_address (rows (run_saves adv calls s)))
       \<and> prefix (map row_key (rows s)) (map row_key (rows (run_saves adv calls s)))
       \<and> sorted_wrt (<) (map col_id (rows (run_saves adv calls s)))
       \<and> (\<forall>r\<in>set (drop (length (rows s)) (rows (run_saves adv calls s))). seq s < col_id r)
       \<and> (a \<in> set (map col_wallet_address (rows s)) \<longrightarrow>
            map row_key (rows (fst (snd (save_wallet adv NoFault a b s)))) = map row_key (rows s))"
proof -
  let ?t = "run_saves adv calls s"
  have ok: "store_ok ?t" using assms by (rule run_saves_ok)
  obtain new where new: "map row_key (rows ?t) = map row_key (rows s) @ new"
      "\<forall>k\<in>set new. seq s < fst k"
    using run_saves_keys[of adv calls s] by blast
  have pre: "prefix (map row_key (rows s)) (map row_key (rows ?t))"
    using new(1) by (simp add: prefix_def)
  have "drop (length (rows s)) (map row_key (rows ?t)) = new"
    using new(1) by simp
  then have "map row_key (drop (length (rows s)) (rows ?t)) = new"
    by (simp add: drop_map)
  then have fresh: "\<forall>r\<in>set (drop (length (rows s)) (rows ?t)). seq s < col_id r"
    using new(2) by (force simp: row_key_def)
  have inplace: "a \<in> set (map col_wallet_address (rows s)) \<longrightarrow>
            map row_key (rows (fst (snd (save_wallet adv NoFault a b s)))) = map row_key (rows s)"
    by (simp add: upsert_keys)
  from ok pre fresh inplace show ?thesis by (simp add: store_ok_def)
qed

lemma upsert_distinct:
  "distinct (map col_wallet_address (rows s)) \<Longrightarrow>
   distinct (map col_wallet_address (rows (upsert adv a v s)))"
  by (auto simp: upsert_def addr_update)

lemma filter_unique:
  "distinct (map f xs) \<Longrightarrow> a \<in> set (map f xs) \<Longrightarrow> \<exists>x. filter (\<lambda>r. f r = a) xs = [x]"
proof (induction xs)
  case Nil then show ?case by simp
next
  case (Cons y ys)
  show ?case
  proof (cases "f y = a")
    case True
    from True Cons.prems have "a \<notin> f ` set ys" by simp
    then have "filter (\<lambda>r. f r = a) ys = []"
      by (auto simp: filter_empty_conv)
    with True show ?thesis by simp
  next
    case False
    with Cons show ?thesis by auto
  qed
qed

lemma filter_update:
  "filter (\<lambda>r. col_wallet_address r = a)
     (map (\<lambda>r. if col_wallet_address r = b then r\<lparr>col_has_nft := v\<rparr> else r) xs) =
   map (\<lambda>r. if col_wallet_address r = b then r\<lparr>col_has_nft := v\<rparr> else r)
     (filter (\<lambda>r. col_wallet_address r = a) xs)"
  by (induction xs) auto

lemma filter_absent: "a \<notin> set (map f xs) \<Longrightarrow> filter (\<lambda>r. f r = a) xs = []"
  by (auto simp: filter_empty_conv)

lemma records_of_upsert:
  assumes "distinct (map col_wallet_address (rows s))"
  shows "\<exists>r. records_of a (upsert adv a v s) = [r] \<and> col_has_nft r = v \<and> col_wallet_address r = a"
proof (cases "a \<in> set (map col_wallet_address (rows s))")
  case True
  let ?upd = "\<lambda>r. if col_wallet_address r = a then r\<lparr>col_has_nft := v\<rparr> else r"
  obtain x where x: "filter (\<lambda>r. col_wallet_address r = a) (rows s) = [x]"
    using filter_unique[OF assms True] by blast
  then have "x \<in> set (filter (\<lambda>r. col_wallet_address r = a) (rows s))" by simp
  then have xa: "col_wallet_address x = a" by simp
  have "filter (\<lambda>r. col_wallet_address r = a) (map ?upd (rows s)) = map ?upd [x]"
    using x filter_update[of a a v "rows s"] by simp
  with True xa show ?thesis by (simp add: records_of_def upsert_def)
next
  case False
  then show ?thesis by (simp add: records_of_def upsert_def filter_absent)
qed

lemma upsert_present: "a \<in> set (map col_wallet_address (rows (upsert adv a v s)))"
  by (simp add: upsert_def addr_update del: set_map)

lemma upsert_rows_present:
  "a \<in> set (map col_wallet_address (rows t)) \<Longrightarrow>
   rows (upsert adv a v t) =
     map (\<lambda>r. if col_wallet_address r = a then r\<lparr>col_has_nft := v\<rparr> else r) (rows t)"
  by (simp add: upsert_def)

lemma upsert_seq_present:
  "a \<in> set (map col_wallet_address (rows t)) \<Longrightarrow> seq (upsert False a v t) = seq t"
  by (simp add: upsert_def)

lemma upsert_rows_absent:
  "a \<notin> set (map col_wallet_address (rows t)) \<Longrightarrow>
   rows (upsert adv a v t) =
     rows t @ [\<lparr>col_id = next_rowid t, col_wallet_address = a, col_has_nft = v\<rparr>]"
  by (simp add: upsert_def)

lemma upsert_value:
  assumes "r \<in> set (rows (upsert adv a v s))" and "col_wallet_address r = a"
  shows "col_has_nft r = v"
proof (cases "a \<in> set (map col_wallet_address (rows s))")
  case True
  let ?upd = "\<lambda>r. if col_wallet_address r = a then r\<lparr>col_has_nft := v\<rparr> else r"
  have "rows (upsert adv a v s) = map ?upd (rows s)"
    using True by (rule upsert_rows_present)
  with assms(1) obtain r0 where r0: "r0 \<in> set (rows s)" "r = ?upd r0"
    by auto
  show ?thesis
  proof (cases "col_wallet_address r0 = a")
    case True
    with r0(2) show ?thesis by simp
  next
    case False
    with r0(2) assms(2) show ?thesis by simp
  qed
next
  case False
  let ?new = "\<lparr>col_id = next_rowid s, col_wallet_address = a, col_has_nft = v\<rparr>"
  have "rows (upsert adv a v s) = rows s @ [?new]"
    using False by (rule upsert_rows_absent)
  with assms(1) have "r \<in> set (rows s) \<or> r = ?new" by auto
  moreover have "r \<notin> set (rows s)"
    using False assms(2) by auto
  ultimately show ?thesis by auto
qed

lemma upsert_twice_rows: "rows (upsert adv a v (upsert adv a v s)) = rows (upsert adv a v s)"
proof -
  let ?t = "upsert adv a v s"
  let ?upd = "\<lambda>r. if col_wallet_address r = a then r\<lparr>col_has_nft := v\<rparr> else r"
  have fixed: "\<forall>r\<in>set (rows ?t). ?upd r = r"
    using upsert_value[of _ adv a v s] by auto
  have "rows (upsert adv a v ?t) = map ?upd (rows ?t)"
    by (rule upsert_rows_present[OF upsert_present])
  also have "\<dots> = rows ?t"
    using fixed by (simp add: map_idI)
  finally show ?thesis .
qed

lemma upsert_twice_state: "upsert False a v (upsert False a v s) = upsert False a v s"
proof -
  let ?t = "upsert False a v s"
  have "rows (upsert False a v ?t) = rows ?t" by (rule upsert_twice_rows)
  moreover have "seq (upsert False a v ?t) = seq ?t"
    by (rule upsert_seq_present[OF upsert_present])
  moreover have "store.more (upsert False a v ?t) = store.more ?t"
    by (simp add: upsert_def)
  ultimately show ?thesis by (rule store.equality)
qed

lemma save_wallet_NoFault:
  "fst (snd (save_wallet adv NoFault a b s)) = upsert adv a (of_bool b) s"
  by simp

text \<open>Claim C6. On a table with one row per address, saving (A, True) and then (A, False)
  leaves exactly one row for A, with \<open>has_nft = 0\<close>.\<close>

theorem upsert_last_write_wins:
  assumes "distinct (map col_wallet_address (rows s))"
  shows "\<exists>r. records_of a (fst (snd (save_wallet adv NoFault a False
                 (fst (snd (save_wallet adv NoFault a True s)))))) = [r]
             \<and> col_wallet_address r = a \<and> col_has_nft r = 0"
proof -
  have "distinct (map col_wallet_address (rows (upsert adv a (of_bool True) s)))"
    using assms by (rule upsert_distinct)
  from records_of_upsert[OF this, of a adv "of_bool False"]
  obtain r where "records_of a (upsert adv a (of_bool False) (upsert adv a (of_bool True) s)) = [r]"
      "col_has_nft r = of_bool False" "col_wallet_address r = a" by blast
  then show ?thesis unfolding save_wallet_NoFault by simp
qed

lemma fold_max_fixed: "\<forall>x\<in>set xs. x \<le> (a::nat) \<Longrightarrow> fold max xs a = a"
  by (induction xs) (simp_all add: max_absorb2)

lemma upsert_adv_seq: "seq (upsert True a v s) = next_rowid s"
  by (simp add: upsert_def)

lemma upsert_adv_ids:
  assumes "r \<in> set (rows (upsert True a v s))"
  shows "col_id r \<le> next_rowid s"
proof (cases "a \<in> set (map col_wallet_address (rows s))")
  case True
  let ?upd = "\<lambda>r. if col_wallet_address r = a then r\<lparr>col_has_nft := v\<rparr> else r"
  have "rows (upsert True a v s) = map ?upd (rows s)"
    using True by (rule upsert_rows_present)
  with assms obtain r0 where r0: "r0 \<in> set (rows s)" "r = ?upd r0" by auto
  then have "col_id r = col_id r0" by simp
  with r0(1) show ?thesis using next_rowid_above_ids[of r0 s] by simp
next
  case False
  let ?new = "\<lparr>col_id = next_rowid s, col_wallet_address = a, col_has_nft = v\<rparr>"
  have "rows (upsert True a v s) = rows s @ [?new]"
    using False by (rule upsert_rows_absent)
  with assms have "r \<in> set (rows s) \<or> r = ?new" by auto
  then show ?thesis using next_rowid_above_ids[of r s] by auto
qed

lemma upsert_adv_twice_seq:
  "seq (upsert True a v (upsert True a v s)) = seq (upsert True a v s) + 1"
proof -
  let ?t = "upsert True a v s"
  have "\<forall>x\<in>set (map col_id (rows ?t)). x \<le> seq ?t"
    using upsert_adv_ids[of _ a v s] by (auto simp: upsert_adv_seq)
  then have "fold max (map col_id (rows ?t)) (seq ?t) = seq ?t"
    by (rule fold_max_fixed)
  then have "next_rowid ?t = seq ?t + 1"
    by (simp add: next_rowid_def)
  then show ?thesis by (simp only: upsert_adv_seq)
qed

text \<open>Claim C7, as the code has it. On a table with one row per address, saving (A, True)
  twice leaves exactly one row for A, with \<open>has_nft = 1\<close>, and the same rows as saving it
  once. The sequence beside the table is the same only when the engine does not advance
  it on a conflict; when it does, as SQLite does, the second save moves it on by one.\<close>

theorem upsert_repeat_keeps_rows:
  assumes "distinct (map col_wallet_address (rows s))"
  shows "(\<exists>r. records_of a (fst (snd (save_wallet adv NoFault a True
                 (fst (snd (save_wallet adv NoFault a True s)))))) = [r]
             \<and> col_wallet_address r = a \<and> col_has_nft r = 1)
       \<and> rows (fst (snd (save_wallet adv NoFault a True (fst (snd (save_wallet adv NoFault a True s))))))
           = rows (fst (snd (save_wallet adv NoFault a True s)))
       \<and> fst (snd (save_wallet False NoFault a True (fst (snd (save_wallet False NoFault a True s)))))
           = fst (snd (save_wallet False NoFault a True s))
       \<and> seq (fst (snd (save_wallet True NoFault a True (fst (snd (save_wallet True NoFault a True s))))))
           = seq (fst (snd (save_wallet True NoFault a True s))) + 1"
proof -
  have d: "distinct (map col_wallet_address (rows (upsert adv a (of_bool True) s)))"
    using assms by (rule upsert_distinct)
  from records_of_upsert[OF d, of a adv "of_bool True"]
  obtain r where r: "records_of a (upsert adv a (of_bool True) (upsert adv a (of_bool True) s)) = [r]"
      "col_has_nft r = of_bool True" "col_wallet_address r = a" by blast
  have one: "\<exists>r. records_of a (upsert adv a (of_bool True) (upsert adv a (of_bool True) s)) = [r]
             \<and> col_wallet_address r = a \<and> col_has_nft r = 1"
    using r by simp
  show ?thesis
    unfolding save_wallet_NoFault
    using one upsert_twice_rows[of adv a "of_bool True" s] upsert_twice_state[of a "of_bool True" s]
      upsert_adv_twice_seq[of a "of_bool True" s]
    by blast
qed




section \<open>The membership decision\<close>

lemma scan_groups_step:
  assumes "wf_group g"
  shows "scan_groups (Some cid) (g # gs) =
           (if is_collection_tag cid g then Inr True else scan_groups (Some cid) gs)"
proof (cases g)
  case (PDict d)
  with assms obtain k v where kv: "map_of d (str ''group_key'') = Some k"
      "map_of d (str ''group_value'') = Some v" by auto
  with PDict show ?thesis by simp
qed (use assms in simp_all)

lemma scan_groups_wf:
  "list_all wf_group gs \<Longrightarrow>
   scan_groups (Some cid) gs = Inr (list_ex (is_collection_tag cid) gs)"
proof (induction gs)
  case Nil
  show ?case by simp
next
  case (Cons g gs)
  then have "wf_group g" and "list_all wf_group gs" by simp_all
  with Cons.IH show ?case by (simp add: scan_groups_step del: scan_groups.simps)
qed

lemma scan_groups_first:
  "list_all wf_group gpre \<Longrightarrow> \<not> list_ex (is_collection_tag cid) gpre \<Longrightarrow>
   wf_group g \<Longrightarrow> is_collection_tag cid g \<Longrightarrow>
   scan_groups (Some cid) (gpre @ g # gpost) = Inr True"
proof (induction gpre)
  case Nil
  then show ?case by (simp only: append_Nil scan_groups_step if_True)
next
  case (Cons x xs)
  then have "wf_group x" "\<not> is_collection_tag cid x" by simp_all
  moreover have "scan_groups (Some cid) (xs @ g # gpost) = Inr True"
    using Cons by simp
  ultimately show ?case by (simp only: append_Cons scan_groups_step if_False)
qed

lemma tag_wf: "is_collection_tag cid g \<Longrightarrow> wf_group g"
  by (cases g) simp_all

lemma scan_nfts_step:
  assumes "wf_asset n"
  shows "scan_nfts (Some cid) (n # ns) =
           (if carries_tag cid n then Inr True else scan_nfts (Some cid) ns)"
proof (cases n)
  case (PDict d)
  show ?thesis
  proof (cases "map_of d (str ''grouping'')")
    case None
    then have "str ''grouping'' \<notin> set (map fst d)"
      by (simp add: map_of_eq_None_iff)
    with None PDict show ?thesis by simp
  next
    case (Some g)
    then have mem: "str ''grouping'' \<in> set (map fst d)"
      by (metis map_of_eq_None_iff option.distinct(1) set_map)
    from assms PDict Some obtain gs where gs: "g = PList gs" "list_all wf_group gs"
      by (cases g) simp_all
    have "scan_groups (Some cid) gs = Inr (list_ex (is_collection_tag cid) gs)"
      using gs(2) by (rule scan_groups_wf)
    with PDict Some mem gs(1) show ?thesis by simp
  qed
qed (use assms in simp_all)

lemma scan_nfts_wf:
  "list_all wf_asset items \<Longrightarrow>
   scan_nfts (Some cid) items = Inr (list_ex (carries_tag cid) items)"
proof (induction items)
  case Nil
  show ?case by simp
next
  case (Cons n ns)
  then have "wf_asset n" and "list_all wf_asset ns" by simp_all
  with Cons.IH show ?case by (simp add: scan_nfts_step del: scan_nfts.simps)
qed

lemma scan_nfts_first:
  assumes "list_all wf_asset pre" and "\<not> list_ex (carries_tag cid) pre"
    and "list_all wf_group gpre" and "\<not> list_ex (is_collection_tag cid) gpre"
    and "is_collection_tag cid g"
    and "map_of d (str ''grouping'') = Some (PList (gpre @ g # gpost))"
  shows "scan_nfts (Some cid) (pre @ PDict d # post) = Inr True"
  using assms(1,2)
proof (induction pre)
  case Nil
  have mem: "str ''grouping'' \<in> set (map fst d)"
    using assms(6) by (metis map_of_eq_None_iff option.distinct(1) set_map)
  have "scan_groups (Some cid) (gpre @ g # gpost) = Inr True"
    using assms(3,4) tag_wf[OF assms(5)] assms(5) by (rule scan_groups_first)
  with mem assms(6) show ?case by simp
next
  case (Cons x xs)
  then have "wf_asset x" "\<not> carries_tag cid x" by simp_all
  moreover have "scan_nfts (Some cid) (xs @ PDict d # post) = Inr True"
    using Cons by simp
  ultimately show ?case by (simp only: append_Cons scan_nfts_step if_False)
qed

lemma check_nft_envelope:
  assumes "status_code resp = 200" and "json_body resp = Some (PDict d)"
    and "map_of d (str ''result'') = Some (PDict rd)"
    and "map_of rd (str ''items'') = Some nfts"
  shows "check_nft cid (Inr resp) a = scan_items cid a nfts"
proof -
  have m1: "str ''result'' \<in> set (map fst d)"
    using assms(3) by (metis map_of_eq_None_iff option.distinct(1) set_map)
  have m2: "str ''items'' \<in> set (map fst rd)"
    using assms(4) by (metis map_of_eq_None_iff option.distinct(1) set_map)
  show ?thesis
    using assms m1 m2 by (simp add: check_nft_def scan_data_def)
qed

lemma scan_items_wf:
  "list_all wf_asset items \<Longrightarrow>
   fst (scan_items (Some cid) a (PList items)) = Inr (list_ex (carries_tag cid) items)"
  by (cases "list_ex (carries_tag cid) items") (simp_all add: scan_items_def scan_nfts_wf)

text \<open>Claim C1. For an asset list as the remote service sends it, the scan of \<open>check_nft\<close>
  returns True exactly when some asset carries a tag whose key is "collection" and whose
  value is the configured identifier, both compared as they are; so does \<open>check_nft\<close> on
  a response with status 200 and the result envelope. The assets and their tags are read in
  the order received and the first match ends the scan: what follows it, well formed or
  not, is never read. The empty list gives False.\<close>

theorem membership_decision:
  "(list_all wf_asset items \<longrightarrow>
      scan_nfts (Some cid) items = Inr (list_ex (carries_tag cid) items) \<and>
      (status_code resp = 200 \<and> json_body resp = Some (PDict d) \<and>
       map_of d (str ''result'') = Some (PDict rd) \<and>
       map_of rd (str ''items'') = Some (PList items) \<longrightarrow>
         fst (check_nft (Some cid) (Inr resp) a) = Inr (list_ex (carries_tag cid) items)))
   \<and> (list_all wf_asset pre \<and> \<not> list_ex (carries_tag cid) pre \<and>
       list_all wf_group gpre \<and> \<not> list_ex (is_collection_tag cid) gpre \<and>
       is_collection_tag cid g \<and>
       map_of ad (str ''grouping'') = Some (PList (gpre @ g # gpost)) \<longrightarrow>
         scan_nfts (Some cid) (pre @ PDict ad # post) = Inr True)
   \<and> scan_nfts (Some cid) [] = Inr False"
proof (intro conjI impI)
  assume "list_all wf_asset items"
  then show "scan_nfts (Some cid) items = Inr (list_ex (carries_tag cid) items)"
    by (rule scan_nfts_wf)
next
  assume wf: "list_all wf_asset items"
    and env: "status_code resp = 200 \<and> json_body resp = Some (PDict d) \<and>
       map_of d (str ''result'') = Some (PDict rd) \<and>
       map_of rd (str ''items'') = Some (PList items)"
  then have "check_nft (Some cid) (Inr resp) a = scan_items (Some cid) a (PList items)"
    by (simp add: check_nft_envelope)
  with wf show "fst (check_nft (Some cid) (Inr resp) a) = Inr (list_ex (carries_tag cid) items)"
    by (simp add: scan_items_wf)
next
  assume "list_all wf_asset pre \<and> \<not> list_ex (carries_tag cid) pre \<and>
       list_all wf_group gpre \<and> \<not> list_ex (is_collection_tag cid) gpre \<and>
       is_collection_tag cid g \<and>
       map_of ad (str ''grouping'') = Some (PList (gpre @ g # gpost))"
  then show "scan_nfts (Some cid) (pre @ PDict ad # post) = Inr True"
    using scan_nfts_first[of pre cid gpre g ad gpost post] by blast
next
  show "scan_nfts (Some cid) [] = Inr False" by simp
qed

lemmas ex_defs = tag_def asset_def bare_asset_def envelope_def str_def

text \<open>A list without a matching tag (a tag of another kind with the value, and
  "collection" tags whose value differs in case or by a trailing space) gives False; the
  same list followed by an asset with the tag gives True, and the ill-formed entries after
  the match do no harm.\<close>

theorem membership_decision_witness:
  "list_all wf_asset items_miss
   \<and> scan_nfts (Some (str ''Col1'')) items_miss = Inr False
   \<and> scan_nfts (Some (str ''Col1''))
        (items_miss @ asset ''c'' [tag ''creator'' ''x'', tag ''collection'' ''Col1'', PInt 7] # [PInt 3])
       = Inr True
   \<and> list_all wf_asset items_hit
   \<and> fst (check_nft (Some (str ''Col1'')) (Inr (envelope items_hit)) (str ''w'')) = Inr True"
proof -
  let ?d = "[(str ''jsonrpc'', PStr (str ''2.0'')),
             (str ''result'', PDict [(str ''total'', PInt (int (length items_hit))),
                                     (str ''items'', PList items_hit)])]"
  let ?rd = "[(str ''total'', PInt (int (length items_hit))), (str ''items'', PList items_hit)]"
  let ?ad = "[(str ''id'', PStr (str ''c'')),
        (str ''grouping'', PList ([tag ''creator'' ''x''] @ tag ''collection'' ''Col1'' # [PInt 7]))]"
  have h1: "list_all wf_asset items_miss" by (simp add: items_miss_def ex_defs)
  have h2: "\<not> list_ex (carries_tag (str ''Col1'')) items_miss" by (simp add: items_miss_def ex_defs)
  have h3: "list_all wf_group [tag ''creator'' ''x'']" by (simp add: ex_defs)
  have h4: "\<not> list_ex (is_collection_tag (str ''Col1'')) [tag ''creator'' ''x'']" by (simp add: ex_defs)
  have h5: "is_collection_tag (str ''Col1'') (tag ''collection'' ''Col1'')" by (simp add: ex_defs)
  have h6: "map_of ?ad (str ''grouping'')
              = Some (PList ([tag ''creator'' ''x''] @ tag ''collection'' ''Col1'' # [PInt 7]))"
    by (simp add: str_def)
  have h7: "list_all wf_asset items_hit" by (simp add: items_hit_def ex_defs)
  have h8: "list_ex (carries_tag (str ''Col1'')) items_hit" by (simp add: items_hit_def ex_defs)
  have h9: "status_code (envelope items_hit) = 200" "json_body (envelope items_hit) = Some (PDict ?d)"
      "map_of ?d (str ''result'') = Some (PDict ?rd)" "map_of ?rd (str ''items'') = Some (PList items_hit)"
    by (simp_all add: envelope_def str_def)
  note a = membership_decision[where items = items_miss and cid = "str ''Col1''" and pre = items_miss
      and gpre = "[tag ''creator'' ''x'']" and g = "tag ''collection'' ''Col1''" and ad = ?ad
      and gpost = "[PInt 7]" and post = "[PInt 3]" and resp = "envelope items_hit" and d = ?d
      and rd = ?rd and a = "str ''w''"]
  note b = membership_decision[where items = items_hit and cid = "str ''Col1''" and pre = items_miss
      and gpre = "[tag ''creator'' ''x'']" and g = "tag ''collection'' ''Col1''" and ad = ?ad
      and gpost = "[PInt 7]" and post = "[PInt 3]" and resp = "envelope items_hit" and d = ?d
      and rd = ?rd and a = "str ''w''"]
  have c1: "scan_nfts (Some (str ''Col1'')) items_miss = Inr False"
    using a h1 h2 by simp
  have "scan_nfts (Some (str ''Col1'')) (items_miss @ PDict ?ad # [PInt 3]) = Inr True"
    using a h1 h2 h3 h4 h5 h6 by blast
  then have c2: "scan_nfts (Some (str ''Col1''))
        (items_miss @ asset ''c'' [tag ''creator'' ''x'', tag ''collection'' ''Col1'', PInt 7] # [PInt 3]) = Inr True"
    by (simp add: asset_def)
  have "fst (check_nft (Some (str ''Col1'')) (Inr (envelope items_hit)) (str ''w''))
          = Inr (list_ex (carries_tag (str ''Col1'')) items_hit)"
    using b h7 h9 by blast
  with h8 have c3: "fst (check_nft (Some (str ''Col1'')) (Inr (envelope items_hit)) (str ''w'')) = Inr True"
    by simp
  from h1 h7 c1 c2 c3 show ?thesis by blast
qed

text \<open>Six calls, three of them failing, on a table of two rows and on the empty table of
  \<open>init_db\<close>.\<close>

theorem wallets_unique_kept_and_numbered_witness:
  "store_ok example_store
   \<and> map row_key (rows (run_saves True example_calls example_store))
       = [(1, str ''B''), (4, str ''A'')]
   \<and> distinct (map col_wallet_address (rows (run_saves True example_calls example_store)))
   \<and> prefix (map row_key (rows example_store))
        (map row_key (rows (run_saves True example_calls example_store)))
   \<and> store_ok (init_db None)
   \<and> map row_key (rows (run_saves True example_calls (init_db None)))
       = [(1, str ''A''), (2, str ''B'')]
   \<and> sorted_wrt (<) (map col_id (rows (run_saves True example_calls (init_db None))))"
proof -
  have h: "store_ok example_store"
    by (simp add: store_ok_def example_store_def str_def)
  have h0: "store_ok (init_db None)" by (simp add: store_ok_def)
  have k: "map row_key (rows (run_saves True example_calls example_store))
       = [(1, str ''B''), (4, str ''A'')]"
    by (simp add: example_calls_def example_store_def upsert_def next_rowid_def row_key_def str_def)
  have k0: "map row_key (rows (run_saves True example_calls (init_db None)))
       = [(1, str ''A''), (2, str ''B'')]"
    by (simp add: example_calls_def upsert_def next_rowid_def row_key_def str_def)
  from h h0 k k0
    wallets_unique_kept_and_numbered[OF h, of True example_calls "str ''A''" True]
    wallets_unique_kept_and_numbered[OF h0, of True example_calls "str ''A''" True]
  show ?thesis by blast
qed

text \<open>For an address that has a row and for one that has none.\<close>

theorem upsert_last_write_wins_witness:
  "distinct (map col_wallet_address (rows example_store))
   \<and> (\<exists>r. records_of (str ''A'') (fst (snd (save_wallet True NoFault (str ''A'') False
                 (fst (snd (save_wallet True NoFault (str ''A'') True example_store)))))) = [r]
             \<and> col_wallet_address r = str ''A'' \<and> col_has_nft r = 0)
   \<and> (\<exists>r. records_of (str ''Z'') (fst (snd (save_wallet False NoFault (str ''Z'') False
                 (fst (snd (save_wallet False NoFault (str ''Z'') True example_store)))))) = [r]
             \<and> col_wallet_address r = str ''Z'' \<and> col_has_nft r = 0)"
proof -
  have h: "distinct (map col_wallet_address (rows example_store))"
    by (simp add: example_store_def str_def)
  from h upsert_last_write_wins[OF h, of "str ''A''" True]
    upsert_last_write_wins[OF h, of "str ''Z''" False]
  show ?thesis by blast
qed

text \<open>A new address: one row is appended, under id 7, by the first call only, and the
  sequence stands at 8 after the second.\<close>

theorem upsert_repeat_keeps_rows_witness:
  "distinct (map col_wallet_address (rows example_store))
   \<and> rows (fst (snd (save_wallet True NoFault (str ''Z'') True
              (fst (snd (save_wallet True NoFault (str ''Z'') True example_store))))))
       = rows example_store @ [\<lparr>col_id = 7, col_wallet_address = str ''Z'', col_has_nft = 1\<rparr>]
   \<and> (\<exists>r. records_of (str ''Z'') (fst (snd (save_wallet True NoFault (str ''Z'') True
                 (fst (snd (save_wallet True NoFault (str ''Z'') True example_store)))))) = [r]
             \<and> col_wallet_address r = str ''Z'' \<and> col_has_nft r = 1)
   \<and> seq (fst (snd (save_wallet True NoFault (str ''Z'') True
              (fst (snd (save_wallet True NoFault (str ''Z'') True example_store)))))) = 8
   \<and> fst (snd (save_wallet False NoFault (str ''Z'') True
              (fst (snd (save_wallet False NoFault (str ''Z'') True example_store)))))
       = fst (snd (save_wallet False NoFault (str ''Z'') True example_store))"
proof -
  have h: "distinct (map col_wallet_address (rows example_store))"
    by (simp add: example_store_def str_def)
  have once: "rows (fst (snd (save_wallet True NoFault (str ''Z'') True example_store)))
       = rows example_store @ [\<lparr>col_id = 7, col_wallet_address = str ''Z'', col_has_nft = 1\<rparr>]"
    by (simp add: example_store_def upsert_def next_rowid_def str_def)
  have sq: "seq (fst (snd (save_wallet True NoFault (str ''Z'') True example_store))) + 1 = 8"
    by (simp add: example_store_def upsert_def next_rowid_def str_def)
  from h once sq upsert_repeat_keeps_rows[OF h, of "str ''Z''" True]
  show ?thesis by metis
qed

text \<open>Against claim C7 as it was stated: with an engine that advances the sequence on a
  conflict, the store after two saves of (A, True) is not the store after one, and the
  difference shows: a row saved next gets id 3 instead of id 2.\<close>

theorem upsert_repeat_advances_sequence:
  "fst (snd (save_wallet True NoFault (str ''A'') True
        (fst (snd (save_wallet True NoFault (str ''A'') True (init_db None))))))
     \<noteq> fst (snd (save_wallet True NoFault (str ''A'') True (init_db None)))
   \<and> fst (snd (save_wallet True NoFault (str ''A'') True (init_db None)))
       = \<lparr>rows = [\<lparr>col_id = 1, col_wallet_address = str ''A'', col_has_nft = 1\<rparr>], seq = 1\<rparr>
   \<and> fst (snd (save_wallet True NoFault (str ''A'') True
        (fst (snd (save_wallet True NoFault (str ''A'') True (init_db None))))))
       = \<lparr>rows = [\<lparr>col_id = 1, col_wallet_address = str ''A'', col_has_nft = 1\<rparr>], seq = 2\<rparr>
   \<and> map row_key (rows (run_saves True
        [(NoFault, str ''A'', True), (NoFault, str ''B'', True)] (init_db None)))
       = [(1, str ''A''), (2, str ''B'')]
   \<and> map row_key (rows (run_saves True
        [(NoFault, str ''A'', True), (NoFault, str ''A'', True), (NoFault, str ''B'', True)]
        (init_db None)))
       = [(1, str ''A''), (3, str ''B'')]"
  by (simp add: upsert_def next_rowid_def row_key_def str_def)


section \<open>The request pipeline\<close>

lemma check_wallet_rejects:
  "length (py_strip text) < 32 \<or> 44 < length (py_strip text) \<Longrightarrow>
   check_wallet e text st = (Rejected, st\<lparr>replies := replies st @ [ReplyInvalid]\<rparr>)"
  by (simp add: check_wallet_def)

lemma check_wallet_nft_raises:
  assumes "32 \<le> length (py_strip text)" and "length (py_strip text) \<le> 44"
    and "check_nft (COLLECTION_ID e) (posted e) (py_strip text) = (Inl x, lg)"
  shows "check_wallet e text st =
           (Escaped x, st\<lparr>replies := replies st @ [ReplyChecking (py_strip text)],
                           posts := posts st @ [payload_of (py_strip text)],
                           logged := logged st @ lg\<rparr>)"
  using assms by (simp add: check_wallet_def Let_def)

lemma check_wallet_saved:
  assumes "32 \<le> length (py_strip text)" and "length (py_strip text) \<le> 44"
    and "check_nft (COLLECTION_ID e) (posted e) (py_strip text) = (Inr b, lg)"
    and "fault e = NoFault"
  shows "check_wallet e text st =
           (Reported b, st\<lparr>replies := replies st @ [ReplyChecking (py_strip text), (if b then ReplyHasNft else ReplyNoNft)],
                           posts := posts st @ [payload_of (py_strip text)],
                           logged := logged st @ lg,
                           wallets := upsert (advances e) (py_strip text) (of_bool b) (wallets st)\<rparr>)"
  using assms by (simp add: check_wallet_def Let_def)

lemma check_wallet_write_fails:
  assumes "32 \<le> length (py_strip text)" and "length (py_strip text) \<le> 44"
    and "check_nft (COLLECTION_ID e) (posted e) (py_strip text) = (Inr b, lg)"
    and "fault e = ExecuteFails \<or> fault e = CommitFails"
  shows "check_wallet e text st =
           (Reported b, st\<lparr>replies := replies st @ [ReplyChecking (py_strip text), (if b then ReplyHasNft else ReplyNoNft)],
                           posts := posts st @ [payload_of (py_strip text)],
                           logged := logged st @ lg @ [LogSaveError]\<rparr>)"
  using assms by (auto simp add: check_wallet_def Let_def)

lemma check_nft_not_200:
  "status_code resp \<noteq> 200 \<Longrightarrow> check_nft cid (Inr resp) a = (Inr False, [])"
  by (simp add: check_nft_def)

lemma check_nft_no_result:
  assumes "status_code resp = 200" and "json_body resp = Some (PDict d)"
    and "map_of d (str ''result'') = None"
  shows "check_nft cid (Inr resp) a = (Inr False, [])"
proof -
  have "str ''result'' \<notin> set (map fst d)"
    using assms(3) by (simp add: map_of_eq_None_iff)
  with assms show ?thesis by (simp add: check_nft_def scan_data_def)
qed

lemma check_nft_no_items:
  assumes "status_code resp = 200" and "json_body resp = Some (PDict d)"
    and "map_of d (str ''result'') = Some (PDict rd)"
    and "map_of rd (str ''items'') = None"
  shows "check_nft cid (Inr resp) a = (Inr False, [])"
proof -
  have "str ''result'' \<in> set (map fst d)"
    using assms(3) by (metis map_of_eq_None_iff option.distinct(1) set_map)
  moreover have "str ''items'' \<notin> set (map fst rd)"
    using assms(4) by (simp add: map_of_eq_None_iff)
  ultimately show ?thesis using assms by (simp add: check_nft_def scan_data_def)
qed

lemma check_nft_bad_body:
  "status_code resp = 200 \<Longrightarrow> json_body resp = None \<Longrightarrow>
   check_nft cid (Inr resp) a = (Inl JSONDecodeError, [])"
  by (simp add: check_nft_def)

lemma check_nft_empty: "fst (check_nft cid (Inr (envelope [])) a) = Inr False"
  by (simp add: check_nft_def scan_data_def scan_items_def envelope_def str_def)

lemma strip_tail:
  "m = rev (dropWhile P (rev m)) @ rev (takeWhile P (rev m))"
proof -
  have "rev (dropWhile P (rev m)) @ rev (takeWhile P (rev m)) =
          rev (takeWhile P (rev m) @ dropWhile P (rev m))"
    by (simp only: rev_append)
  also have "\<dots> = rev (rev m)" by (simp only: takeWhile_dropWhile_id)
  also have "\<dots> = m" by simp
  finally show ?thesis by simp
qed

lemma strip_split:
  "\<exists>pre post. text = pre @ py_strip text @ post \<and> list_all py_isspace pre \<and> list_all py_isspace post"
proof -
  let ?m = "dropWhile py_isspace text"
  let ?pre = "takeWhile py_isspace text"
  let ?post = "rev (takeWhile py_isspace (rev ?m))"
  have "?m = py_strip text @ ?post"
    unfolding py_strip_def by (rule strip_tail)
  moreover have "text = ?pre @ ?m" by simp
  ultimately have "text = ?pre @ py_strip text @ ?post" by simp
  moreover have "list_all py_isspace ?pre"
    by (simp add: list_all_iff) (meson set_takeWhileD)
  moreover have "list_all py_isspace ?post"
    by (simp add: list_all_iff) (meson set_takeWhileD)
  ultimately show ?thesis by blast
qed

lemma strip_ends:
  assumes "py_strip text \<noteq> []"
  shows "\<not> py_isspace (hd (py_strip text)) \<and> \<not> py_isspace (last (py_strip text))"
proof -
  let ?m = "dropWhile py_isspace text"
  let ?k = "dropWhile py_isspace (rev ?m)"
  have k: "?k \<noteq> []" using assms by (simp add: py_strip_def)
  then have "\<not> py_isspace (hd ?k)" by (rule hd_dropWhile)
  then have l: "\<not> py_isspace (last (py_strip text))"
    using k by (simp add: py_strip_def last_rev)
  have m: "?m \<noteq> []" using k by (metis dropWhile.simps(1) rev.simps(1))
  then have hm: "\<not> py_isspace (hd ?m)" by (rule hd_dropWhile)
  have "?m = py_strip text @ rev (takeWhile py_isspace (rev ?m))"
    unfolding py_strip_def by (rule strip_tail)
  then have "hd ?m = hd (py_strip text)" using assms by (metis hd_append2)
  with hm l show ?thesis by simp
qed

lemma example_address_strip: "py_strip example_address = example_address"
  by (simp add: example_address_def py_strip_def py_isspace_def str_def)

lemma example_address_length: "length example_address = 44"
  by (simp add: example_address_def str_def)

lemma padded_address_strip: "py_strip padded_address = example_address"
  by (simp add: padded_address_def example_address_def py_strip_def py_isspace_def str_def)

lemma padded_address_length: "length padded_address = 47"
  by (simp add: padded_address_def example_address_def str_def)

lemma short_padded_strip: "length short_padded = 32 \<and> length (py_strip short_padded) = 31"
  by (simp add: short_padded_def py_strip_def py_isspace_def str_def)

lemma check_wallet_connect_fails:
  assumes "32 \<le> length (py_strip text)" and "length (py_strip text) \<le> 44"
    and "check_nft (COLLECTION_ID e) (posted e) (py_strip text) = (Inr b, lg)"
    and "fault e = ConnectFails"
  shows "check_wallet e text st =
           (Escaped UnboundLocalError,
            st\<lparr>replies := replies st @ [ReplyChecking (py_strip text)],
               posts := posts st @ [payload_of (py_strip text)],
               logged := logged st @ lg @ [LogSaveError]\<rparr>)"
  using assms by (simp add: check_wallet_def Let_def)

lemma check_wallet_valid:
  assumes "32 \<le> length (py_strip text)" and "length (py_strip text) \<le> 44"
  shows "fst (check_wallet e text st) \<noteq> Rejected
       \<and> posts (snd (check_wallet e text st)) = posts st @ [payload_of (py_strip text)]
       \<and> take (Suc (length (replies st))) (replies (snd (check_wallet e text st)))
           = replies st @ [ReplyChecking (py_strip text)]"
proof -
  obtain res lg where r: "check_nft (COLLECTION_ID e) (posted e) (py_strip text) = (res, lg)"
    by (cases "check_nft (COLLECTION_ID e) (posted e) (py_strip text)")
  show ?thesis
  proof (cases res)
    case (Inl x)
    with r assms show ?thesis by (simp add: check_wallet_nft_raises)
  next
    case (Inr b)
    show ?thesis
    proof (cases "fault e")
      case NoFault
      with r Inr assms show ?thesis by (simp add: check_wallet_saved)
    next
      case ConnectFails
      with r Inr assms show ?thesis by (simp add: check_wallet_connect_fails)
    next
      case ExecuteFails
      with r Inr assms show ?thesis by (simp add: check_wallet_write_fails)
    next
      case CommitFails
      with r Inr assms show ?thesis by (simp add: check_wallet_write_fails)
    qed
  qed
qed

lemma check_wallet_reports:
  assumes "32 \<le> length (py_strip text)" and "length (py_strip text) \<le> 44"
    and "fst (check_nft (COLLECTION_ID e) (posted e) (py_strip text)) = Inr b"
    and "fault e \<noteq> ConnectFails"
  shows "fst (check_wallet e text st) = Reported b
       \<and> replies (snd (check_wallet e text st))
           = replies st @ [ReplyChecking (py_strip text), if b then ReplyHasNft else ReplyNoNft]"
proof -
  obtain lg where r: "check_nft (COLLECTION_ID e) (posted e) (py_strip text) = (Inr b, lg)"
    using assms(3) by (cases "check_nft (COLLECTION_ID e) (posted e) (py_strip text)") simp
  show ?thesis
  proof (cases "fault e")
    case NoFault
    with r assms show ?thesis by (simp add: check_wallet_saved)
  next
    case ConnectFails
    with assms(4) show ?thesis by simp
  next
    case ExecuteFails
    with r assms show ?thesis by (simp add: check_wallet_write_fails)
  next
    case CommitFails
    with r assms show ?thesis by (simp add: check_wallet_write_fails)
  qed
qed

lemma check_wallet_wallets:
  assumes "32 \<le> length (py_strip text)" and "length (py_strip text) \<le> 44"
    and "fst (check_nft (COLLECTION_ID e) (posted e) (py_strip text)) = Inr b"
    and "fault e = NoFault"
  shows "wallets (snd (check_wallet e text st))
           = upsert (advances e) (py_strip text) (of_bool b) (wallets st)"
proof -
  obtain lg where r: "check_nft (COLLECTION_ID e) (posted e) (py_strip text) = (Inr b, lg)"
    using assms(3) by (cases "check_nft (COLLECTION_ID e) (posted e) (py_strip text)") simp
  with assms show ?thesis by (simp add: check_wallet_saved)
qed

lemma check_wallet_escapes:
  assumes "32 \<le> length (py_strip text)" and "length (py_strip text) \<le> 44"
    and "fst (check_nft (COLLECTION_ID e) (posted e) (py_strip text)) = Inl x"
  shows "fst (check_wallet e text st) = Escaped x"
proof -
  obtain lg where r: "check_nft (COLLECTION_ID e) (posted e) (py_strip text) = (Inl x, lg)"
    using assms(3) by (cases "check_nft (COLLECTION_ID e) (posted e) (py_strip text)") simp
  with assms show ?thesis by (simp add: check_wallet_nft_raises)
qed

text \<open>Against claim C2 as it was stated: with status 200, a body that is not JSON raises
  JSONDecodeError, and the body \<open>{"result": null}\<close> raises TypeError at \<open>"items" in None\<close>.\<close>

theorem check_nft_raises_on_malformed_body:
  "check_nft (Some (str ''Col1'')) (Inr \<lparr>status_code = 200, json_body = None\<rparr>) example_address
     = (Inl JSONDecodeError, [])
   \<and> check_nft (Some (str ''Col1''))
        (Inr \<lparr>status_code = 200, json_body = Some (PDict [(str ''result'', PNone)])\<rparr>) example_address
     = (Inl TypeError, [])"
  by (simp add: check_nft_def scan_data_def str_def)

text \<open>Claim C2, as the code has it. A response whose status is not 200, a JSON object without
  "result", and a "result" object without "items" make \<open>check_nft\<close> return False and raise
  nothing: the result of a wallet with no items. A body with status 200 that is not JSON
  makes \<open>response.json()\<close> raise, and the exception leaves \<open>check_nft\<close>.\<close>

theorem check_nft_fail_soft:
  "(status_code resp \<noteq> 200 \<longrightarrow> check_nft cid (Inr resp) a = (Inr False, []))
   \<and> (status_code resp = 200 \<and> json_body resp = Some (PDict d) \<and>
       map_of d (str ''result'') = None \<longrightarrow> check_nft cid (Inr resp) a = (Inr False, []))
   \<and> (status_code resp = 200 \<and> json_body resp = Some (PDict d) \<and>
       map_of d (str ''result'') = Some (PDict rd) \<and> map_of rd (str ''items'') = None \<longrightarrow>
         check_nft cid (Inr resp) a = (Inr False, []))
   \<and> (status_code resp = 200 \<and> json_body resp = None \<longrightarrow>
         check_nft cid (Inr resp) a = (Inl JSONDecodeError, []))
   \<and> fst (check_nft cid (Inr (envelope [])) a) = Inr False"
  by (simp add: check_nft_not_200 check_nft_no_result check_nft_no_items check_nft_bad_body
      check_nft_empty)

text \<open>Status 500, a body with an error member only, and a result without items.\<close>

theorem check_nft_fail_soft_witness:
  "check_nft (Some (str ''Col1'')) (Inr \<lparr>status_code = 500, json_body = None\<rparr>) example_address
     = (Inr False, [])
   \<and> check_nft (Some (str ''Col1''))
        (Inr \<lparr>status_code = 200, json_body = Some (PDict [(str ''error'', PStr (str ''x''))])\<rparr>)
        example_address = (Inr False, [])
   \<and> check_nft (Some (str ''Col1''))
        (Inr \<lparr>status_code = 200,
              json_body = Some (PDict [(str ''result'', PDict [(str ''total'', PInt 0)])])\<rparr>)
        example_address = (Inr False, [])"
proof -
  let ?r1 = "\<lparr>status_code = 500, json_body = None\<rparr>"
  let ?ad = "[(str ''error'', PStr (str ''x''))]"
  let ?r2 = "\<lparr>status_code = 200, json_body = Some (PDict ?ad)\<rparr>"
  let ?rd = "[(str ''total'', PInt 0)]"
  let ?d3 = "[(str ''result'', PDict ?rd)]"
  let ?r3 = "\<lparr>status_code = 200, json_body = Some (PDict ?d3)\<rparr>"
  have h1: "status_code ?r1 \<noteq> 200" by simp
  have h2: "status_code ?r2 = 200 \<and> json_body ?r2 = Some (PDict ?ad) \<and>
            map_of ?ad (str ''result'') = None" by (simp add: str_def)
  have h3: "status_code ?r3 = 200 \<and> json_body ?r3 = Some (PDict ?d3) \<and>
            map_of ?d3 (str ''result'') = Some (PDict ?rd) \<and> map_of ?rd (str ''items'') = None"
    by (simp add: str_def)
  from h1 h2 h3
    check_nft_fail_soft[of ?r1 "Some (str ''Col1'')" example_address ?ad ?rd]
    check_nft_fail_soft[of ?r2 "Some (str ''Col1'')" example_address ?ad ?rd]
    check_nft_fail_soft[of ?r3 "Some (str ''Col1'')" example_address ?d3 ?rd]
  show ?thesis by blast
qed

text \<open>Claim C3. The length guard of \<open>check_wallet\<close> lets a request pass exactly when the
  string it receives, the stripped text, has between 32 and 44 code points, whatever they
  are. When it does not, the call ends with the rejection message alone: no request is
  posted and the table is untouched.\<close>

theorem validator_length_guard:
  "(fst (check_wallet e text st) \<noteq> Rejected \<longleftrightarrow>
      32 \<le> length (py_strip text) \<and> length (py_strip text) \<le> 44)
   \<and> (length (py_strip text) < 32 \<or> 44 < length (py_strip text) \<longrightarrow>
        check_wallet e text st = (Rejected, st\<lparr>replies := replies st @ [ReplyInvalid]\<rparr>)
        \<and> posts (snd (check_wallet e text st)) = posts st
        \<and> wallets (snd (check_wallet e text st)) = wallets st)
   \<and> (py_strip text = text \<longrightarrow>
        (fst (check_wallet e text st) \<noteq> Rejected \<longleftrightarrow> 32 \<le> length text \<and> length text \<le> 44))"
proof -
  have a: "fst (check_wallet e text st) \<noteq> Rejected \<longleftrightarrow>
      32 \<le> length (py_strip text) \<and> length (py_strip text) \<le> 44"
  proof (cases "length (py_strip text) < 32 \<or> 44 < length (py_strip text)")
    case True
    then have "fst (check_wallet e text st) = Rejected" by (simp add: check_wallet_rejects)
    with True show ?thesis by auto
  next
    case False
    then have "32 \<le> length (py_strip text)" "length (py_strip text) \<le> 44" by auto
    then show ?thesis using check_wallet_valid[of "text" e st] by simp
  qed
  have b: "length (py_strip text) < 32 \<or> 44 < length (py_strip text) \<longrightarrow>
        check_wallet e text st = (Rejected, st\<lparr>replies := replies st @ [ReplyInvalid]\<rparr>)
        \<and> posts (snd (check_wallet e text st)) = posts st
        \<and> wallets (snd (check_wallet e text st)) = wallets st"
    by (simp add: check_wallet_rejects)
  have c: "py_strip text = text \<longrightarrow>
        (fst (check_wallet e text st) \<noteq> Rejected \<longleftrightarrow> 32 \<le> length text \<and> length text \<le> 44)"
    using a by simp
  from a b c show ?thesis by blast
qed

text \<open>The text "short" is rejected and leaves no trace; the 44 characters of the sample address pass.\<close>

theorem validator_length_guard_witness:
  "length (py_strip (str ''short'')) < 32
   \<and> check_wallet (example_env (Inr (envelope items_hit)) NoFault) (str ''short'') bot0
       = (Rejected, bot0\<lparr>replies := replies bot0 @ [ReplyInvalid]\<rparr>)
   \<and> posts (snd (check_wallet (example_env (Inr (envelope items_hit)) NoFault) (str ''short'') bot0)) = []
   \<and> rows (wallets (snd (check_wallet (example_env (Inr (envelope items_hit)) NoFault) (str ''short'') bot0))) = []
   \<and> py_strip example_address = example_address
   \<and> fst (check_wallet (example_env (Inr (envelope items_hit)) NoFault) example_address bot0) \<noteq> Rejected"
proof -
  let ?e = "example_env (Inr (envelope items_hit)) NoFault"
  have h1: "length (py_strip (str ''short'')) < 32"
    by (simp add: py_strip_def py_isspace_def str_def)
  have h2: "py_strip example_address = example_address" by (rule example_address_strip)
  have h3: "32 \<le> length example_address \<and> length example_address \<le> 44"
    by (simp add: example_address_length)
  have b: "posts bot0 = [] \<and> rows (wallets bot0) = []" by (simp add: bot0_def)
  from h1 h2 h3 b validator_length_guard[of ?e "str ''short''" bot0]
    validator_length_guard[of ?e example_address bot0]
  show ?thesis by metis
qed

text \<open>Claim C4 at the input where the code fails it. When \<open>sqlite3.connect\<close> raises, the
  handler logs the error, but the \<open>finally\<close> clause then reads \<open>conn\<close>, which was never
  bound: UnboundLocalError leaves \<open>save_wallet\<close> and \<open>check_wallet\<close>, and the user gets no
  result message after the in-progress notice.\<close>

theorem save_wallet_connect_failure_escapes:
  "save_wallet True ConnectFails example_address True (init_db None)
     = (Some UnboundLocalError, init_db None, [LogSaveError])
   \<and> check_wallet (example_env (Inr (envelope items_hit)) ConnectFails) example_address bot0
     = (Escaped UnboundLocalError,
        \<lparr>wallets = init_db None,
         replies = [ReplyChecking example_address],
         posts = [payload_of example_address],
         logged = [LogReceived 2 example_address, LogFound (Some (str ''Col1'')), LogSaveError]\<rparr>)"
proof -
  let ?e = "example_env (Inr (envelope items_hit)) ConnectFails"
  have n: "check_nft (COLLECTION_ID ?e) (posted ?e) (py_strip example_address)
             = (Inr True, [LogReceived 2 example_address, LogFound (Some (str ''Col1''))])"
    unfolding example_address_strip
    by (simp add: example_env_def check_nft_def scan_data_def scan_items_def items_hit_def ex_defs)
  have "check_wallet ?e example_address bot0 =
           (Escaped UnboundLocalError,
            bot0\<lparr>replies := replies bot0 @ [ReplyChecking (py_strip example_address)],
               posts := posts bot0 @ [payload_of (py_strip example_address)],
               logged := logged bot0 @ [LogReceived 2 example_address, LogFound (Some (str ''Col1''))]
                          @ [LogSaveError]\<rparr>)"
    using n by (rule check_wallet_connect_fails[rotated 2])
      (simp_all add: example_address_strip example_address_length example_env_def)
  then show ?thesis by (simp add: example_address_strip bot0_def)
qed

text \<open>Against claim C8 as it was stated: for a valid address and a response with status 200
  whose body is not JSON, the call ends neither rejected nor with a decision reported.\<close>

theorem check_wallet_error_terminal:
  "fst (check_wallet (example_env (Inr \<lparr>status_code = 200, json_body = None\<rparr>) NoFault)
          example_address bot0) = Escaped JSONDecodeError
   \<and> fst (check_wallet (example_env (Inr \<lparr>status_code = 200, json_body = None\<rparr>) NoFault)
          example_address bot0) \<noteq> Rejected
   \<and> fst (check_wallet (example_env (Inr \<lparr>status_code = 200, json_body = None\<rparr>) NoFault)
          example_address bot0) \<noteq> Reported True
   \<and> fst (check_wallet (example_env (Inr \<lparr>status_code = 200, json_body = None\<rparr>) NoFault)
          example_address bot0) \<noteq> Reported False"
proof -
  let ?e = "example_env (Inr \<lparr>status_code = 200, json_body = None\<rparr>) NoFault"
  have "fst (check_nft (COLLECTION_ID ?e) (posted ?e) (py_strip example_address)) = Inl JSONDecodeError"
    by (simp add: example_env_def check_nft_def)
  then have "fst (check_wallet ?e example_address bot0) = Escaped JSONDecodeError"
    by (rule check_wallet_escapes[rotated 2])
      (simp_all add: example_address_strip example_address_length)
  then show ?thesis by simp
qed

text \<open>Claim C8, as the code has it. A call of \<open>check_wallet\<close> ends with a rejection when the
  stripped text fails the length guard; with the exception that \<open>check_nft\<close> raised, which
  nothing catches, when it raised one; and, when \<open>check_nft\<close> returned and the storage
  connection opened, with the decision reported. When the remote call returned a status
  other than 200 (500, say), the decision is False, nothing is raised, and when the write
  went through the table holds the address with \<open>has_nft = 0\<close>.\<close>

theorem check_wallet_terminals:
  "(length (py_strip text) < 32 \<or> 44 < length (py_strip text) \<longrightarrow>
      fst (check_wallet e text st) = Rejected)
   \<and> (32 \<le> length (py_strip text) \<and> length (py_strip text) \<le> 44 \<and>
       fst (check_nft (COLLECTION_ID e) (posted e) (py_strip text)) = Inl x \<longrightarrow>
         fst (check_wallet e text st) = Escaped x)
   \<and> (32 \<le> length (py_strip text) \<and> length (py_strip text) \<le> 44 \<and>
       fst (check_nft (COLLECTION_ID e) (posted e) (py_strip text)) = Inr b \<and>
       fault e \<noteq> ConnectFails \<longrightarrow>
         fst (check_wallet e text st) = Reported b \<and>
         replies (snd (check_wallet e text st)) =
           replies st @ [ReplyChecking (py_strip text), if b then ReplyHasNft else ReplyNoNft])
   \<and> (32 \<le> length (py_strip text) \<and> length (py_strip text) \<le> 44 \<and>
       posted e = Inr resp \<and> status_code resp \<noteq> 200 \<and> fault e \<noteq> ConnectFails \<longrightarrow>
         fst (check_wallet e text st) = Reported False \<and>
         replies (snd (check_wallet e text st)) =
           replies st @ [ReplyChecking (py_strip text), ReplyNoNft] \<and>
         (fault e = NoFault \<longrightarrow>
            wallets (snd (check_wallet e text st)) =
              upsert (advances e) (py_strip text) 0 (wallets st) \<and>
            records_of (py_strip text) (wallets (snd (check_wallet e text st))) \<noteq> [] \<and>
            (\<forall>r\<in>set (records_of (py_strip text) (wallets (snd (check_wallet e text st)))).
               col_has_nft r = 0)))"
proof (intro conjI impI)
  assume "length (py_strip text) < 32 \<or> 44 < length (py_strip text)"
  then show "fst (check_wallet e text st) = Rejected" by (simp add: check_wallet_rejects)
next
  assume "32 \<le> length (py_strip text) \<and> length (py_strip text) \<le> 44 \<and>
       fst (check_nft (COLLECTION_ID e) (posted e) (py_strip text)) = Inl x"
  then show "fst (check_wallet e text st) = Escaped x" by (simp add: check_wallet_escapes)
next
  assume a: "32 \<le> length (py_strip text) \<and> length (py_strip text) \<le> 44 \<and>
       fst (check_nft (COLLECTION_ID e) (posted e) (py_strip text)) = Inr b \<and>
       fault e \<noteq> ConnectFails"
  then show "fst (check_wallet e text st) = Reported b"
    using check_wallet_reports[of "text" e b st] by blast
  from a show "replies (snd (check_wallet e text st)) =
           replies st @ [ReplyChecking (py_strip text), if b then ReplyHasNft else ReplyNoNft]"
    using check_wallet_reports[of "text" e b st] by blast
next
  assume a: "32 \<le> length (py_strip text) \<and> length (py_strip text) \<le> 44 \<and>
       posted e = Inr resp \<and> status_code resp \<noteq> 200 \<and> fault e \<noteq> ConnectFails"
  then have n: "fst (check_nft (COLLECTION_ID e) (posted e) (py_strip text)) = Inr False"
    by (simp add: check_nft_not_200)
  from a n show "fst (check_wallet e text st) = Reported False"
    using check_wallet_reports[of "text" e False st] by blast
  from a n show "replies (snd (check_wallet e text st)) =
           replies st @ [ReplyChecking (py_strip text), ReplyNoNft]"
    using check_wallet_reports[of "text" e False st] by simp
  {
    assume f: "fault e = NoFault"
    with a n have w: "wallets (snd (check_wallet e text st)) =
              upsert (advances e) (py_strip text) (of_bool False) (wallets st)"
      using check_wallet_wallets[of "text" e False st] by blast
    then show "wallets (snd (check_wallet e text st)) =
              upsert (advances e) (py_strip text) 0 (wallets st)" by simp
    have "py_strip text \<in> set (map col_wallet_address (rows (wallets (snd (check_wallet e text st)))))"
      unfolding w by (rule upsert_present)
    then show "records_of (py_strip text) (wallets (snd (check_wallet e text st))) \<noteq> []"
      by (auto simp: records_of_def filter_empty_conv)
    show "\<forall>r\<in>set (records_of (py_strip text) (wallets (snd (check_wallet e text st)))).
               col_has_nft r = 0"
      unfolding w using upsert_value[of _ "advances e" "py_strip text" "of_bool False" "wallets st"]
      by (auto simp: records_of_def)
  }
qed

text \<open>Status 500 with a working storage and with a failing commit, and a short text.\<close>

theorem check_wallet_terminals_witness:
  "32 \<le> length (py_strip example_address) \<and> length (py_strip example_address) \<le> 44
   \<and> fst (check_wallet (example_env (Inr \<lparr>status_code = 500, json_body = None\<rparr>) NoFault)
          example_address bot0) = Reported False
   \<and> replies (snd (check_wallet (example_env (Inr \<lparr>status_code = 500, json_body = None\<rparr>) NoFault)
          example_address bot0)) = [ReplyChecking example_address, ReplyNoNft]
   \<and> rows (wallets (snd (check_wallet (example_env (Inr \<lparr>status_code = 500, json_body = None\<rparr>) NoFault)
          example_address bot0)))
       = [\<lparr>col_id = 1, col_wallet_address = example_address, col_has_nft = 0\<rparr>]
   \<and> fst (check_wallet (example_env (Inr \<lparr>status_code = 500, json_body = None\<rparr>) CommitFails)
          example_address bot0) = Reported False
   \<and> fst (check_wallet (example_env (Inr (envelope items_hit)) NoFault) (str ''short'') bot0) = Rejected"
proof -
  let ?r = "\<lparr>status_code = 500, json_body = None\<rparr>"
  let ?e = "example_env (Inr ?r) NoFault"
  let ?e2 = "example_env (Inr ?r) CommitFails"
  let ?e3 = "example_env (Inr (envelope items_hit)) NoFault"
  have h1: "32 \<le> length (py_strip example_address) \<and> length (py_strip example_address) \<le> 44"
    by (simp add: example_address_strip example_address_length)
  have h2: "posted ?e = Inr ?r \<and> status_code ?r \<noteq> 200 \<and> fault ?e \<noteq> ConnectFails \<and> fault ?e = NoFault"
    by (simp add: example_env_def)
  have h3: "posted ?e2 = Inr ?r \<and> fault ?e2 \<noteq> ConnectFails"
    by (simp add: example_env_def)
  have h4: "length (py_strip (str ''short'')) < 32"
    by (simp add: py_strip_def py_isspace_def str_def)
  note t1 = check_wallet_terminals[of example_address ?e bot0 _ _ ?r]
  note t2 = check_wallet_terminals[of example_address ?e2 bot0 _ _ ?r]
  note t3 = check_wallet_terminals[of "str ''short''" ?e3 bot0]
  have c1: "fst (check_wallet ?e example_address bot0) = Reported False"
    using t1 h1 h2 by blast
  have c2: "replies (snd (check_wallet ?e example_address bot0))
              = replies bot0 @ [ReplyChecking (py_strip example_address), ReplyNoNft]"
    using t1 h1 h2 by blast
  have c3: "wallets (snd (check_wallet ?e example_address bot0))
              = upsert (advances ?e) (py_strip example_address) 0 (wallets bot0)"
    using t1 h1 h2 by blast
  have c4: "fst (check_wallet ?e2 example_address bot0) = Reported False"
    using t2 h1 h2 h3 by blast
  have c5: "fst (check_wallet ?e3 (str ''short'') bot0) = Rejected"
    using t3 h4 by blast
  have c2': "replies (snd (check_wallet ?e example_address bot0)) = [ReplyChecking example_address, ReplyNoNft]"
    using c2 by (simp add: example_address_strip bot0_def)
  have c3': "rows (wallets (snd (check_wallet ?e example_address bot0)))
       = [\<lparr>col_id = 1, col_wallet_address = example_address, col_has_nft = 0\<rparr>]"
    unfolding c3 by (simp add: example_address_strip bot0_def upsert_def next_rowid_def example_env_def)
  from h1 c1 c2' c3' c4 c5 show ?thesis by blast
qed

text \<open>Claim C9. \<open>check_wallet\<close> works on the text with the whitespace at both ends removed:
  the stripped text is what the guard measures, what is sent as \<open>ownerAddress\<close>, what the
  in-progress notice shows and what the table is keyed by. A text whose stripped length
  is outside 32..44 is rejected, one whose stripped length is inside passes, whatever
  the length of the raw text.\<close>

theorem check_wallet_uses_stripped_text:
  "(\<exists>pre post. text = pre @ py_strip text @ post \<and>
       list_all py_isspace pre \<and> list_all py_isspace post)
   \<and> (py_strip text \<noteq> [] \<longrightarrow>
        \<not> py_isspace (hd (py_strip text)) \<and> \<not> py_isspace (last (py_strip text)))
   \<and> (length (py_strip text) < 32 \<or> 44 < length (py_strip text) \<longrightarrow>
        fst (check_wallet e text st) = Rejected)
   \<and> (32 \<le> length (py_strip text) \<and> length (py_strip text) \<le> 44 \<longrightarrow>
        fst (check_wallet e text st) \<noteq> Rejected \<and>
        posts (snd (check_wallet e text st)) = posts st @ [payload_of (py_strip text)] \<and>
        ownerAddress (payload_of (py_strip text)) = py_strip text \<and>
        take (Suc (length (replies st))) (replies (snd (check_wallet e text st)))
          = replies st @ [ReplyChecking (py_strip text)])
   \<and> (32 \<le> length (py_strip text) \<and> length (py_strip text) \<le> 44 \<and>
       fst (check_nft (COLLECTION_ID e) (posted e) (py_strip text)) = Inr b \<and>
       fault e = NoFault \<longrightarrow>
        wallets (snd (check_wallet e text st))
          = upsert (advances e) (py_strip text) (of_bool b) (wallets st) \<and>
        py_strip text \<in> set (map col_wallet_address (rows (wallets (snd (check_wallet e text st))))))"
proof (intro conjI impI)
  show "\<exists>pre post. text = pre @ py_strip text @ post \<and>
       list_all py_isspace pre \<and> list_all py_isspace post"
    by (rule strip_split)
next
  assume "py_strip text \<noteq> []"
  then have "\<not> py_isspace (hd (py_strip text)) \<and> \<not> py_isspace (last (py_strip text))"
    by (rule strip_ends)
  then show "\<not> py_isspace (hd (py_strip text))" and "\<not> py_isspace (last (py_strip text))"
    by simp_all
next
  assume "length (py_strip text) < 32 \<or> 44 < length (py_strip text)"
  then show "fst (check_wallet e text st) = Rejected" by (simp add: check_wallet_rejects)
next
  assume a: "32 \<le> length (py_strip text) \<and> length (py_strip text) \<le> 44"
  then show "fst (check_wallet e text st) \<noteq> Rejected"
    using check_wallet_valid[of "text" e st] by blast
  from a show "posts (snd (check_wallet e text st)) = posts st @ [payload_of (py_strip text)]"
    using check_wallet_valid[of "text" e st] by blast
  show "ownerAddress (payload_of (py_strip text)) = py_strip text"
    by (simp add: payload_of_def)
  from a show "take (Suc (length (replies st))) (replies (snd (check_wallet e text st)))
          = replies st @ [ReplyChecking (py_strip text)]"
    using check_wallet_valid[of "text" e st] by blast
next
  assume a: "32 \<le> length (py_strip text) \<and> length (py_strip text) \<le> 44 \<and>
       fst (check_nft (COLLECTION_ID e) (posted e) (py_strip text)) = Inr b \<and>
       fault e = NoFault"
  then show w: "wallets (snd (check_wallet e text st))
          = upsert (advances e) (py_strip text) (of_bool b) (wallets st)"
    using check_wallet_wallets[of "text" e b st] by blast
  show "py_strip text \<in> set (map col_wallet_address (rows (wallets (snd (check_wallet e text st)))))"
    unfolding w by (rule upsert_present)
qed

text \<open>A raw text of 32 characters, 31 after stripping, is rejected; a raw text of 47
  characters, 44 after stripping, passes, and the stripped address is posted and saved.\<close>

theorem check_wallet_uses_stripped_text_witness:
  "length short_padded = 32 \<and> length (py_strip short_padded) < 32
   \<and> fst (check_wallet (example_env (Inr (envelope items_hit)) NoFault) short_padded bot0) = Rejected
   \<and> length padded_address = 47 \<and> py_strip padded_address = example_address
   \<and> 32 \<le> length (py_strip padded_address) \<and> length (py_strip padded_address) \<le> 44
   \<and> fst (check_wallet (example_env (Inr (envelope items_hit)) NoFault) padded_address bot0) \<noteq> Rejected
   \<and> posts (snd (check_wallet (example_env (Inr (envelope items_hit)) NoFault) padded_address bot0))
       = [payload_of example_address]
   \<and> rows (wallets (snd (check_wallet (example_env (Inr (envelope items_hit)) NoFault) padded_address bot0)))
       = [\<lparr>col_id = 1, col_wallet_address = example_address, col_has_nft = 1\<rparr>]"
proof -
  let ?e = "example_env (Inr (envelope items_hit)) NoFault"
  have h1: "length short_padded = 32 \<and> length (py_strip short_padded) < 32"
    using short_padded_strip by simp
  have h2: "length padded_address = 47 \<and> py_strip padded_address = example_address"
    by (simp add: padded_address_length padded_address_strip)
  have h3: "32 \<le> length (py_strip padded_address) \<and> length (py_strip padded_address) \<le> 44"
    by (simp add: padded_address_strip example_address_length)
  have h4: "fst (check_nft (COLLECTION_ID ?e) (posted ?e) (py_strip padded_address)) = Inr True"
    by (simp add: example_env_def check_nft_def scan_data_def scan_items_def items_hit_def ex_defs)
  have h5: "fault ?e = NoFault" by (simp add: example_env_def)
  note t1 = check_wallet_uses_stripped_text[of short_padded ?e bot0]
  note t2 = check_wallet_uses_stripped_text[of padded_address ?e bot0 True]
  have c1: "fst (check_wallet ?e short_padded bot0) = Rejected"
    using t1 h1 by blast
  have c2: "fst (check_wallet ?e padded_address bot0) \<noteq> Rejected"
    using t2 h3 by blast
  have c3: "posts (snd (check_wallet ?e padded_address bot0))
              = posts bot0 @ [payload_of (py_strip padded_address)]"
    using t2 h3 by blast
  have c4: "wallets (snd (check_wallet ?e padded_address bot0))
              = upsert (advances ?e) (py_strip padded_address) (of_bool True) (wallets bot0)"
    using t2 h3 h4 h5 by blast
  have c3': "posts (snd (check_wallet ?e padded_address bot0)) = [payload_of example_address]"
    using c3 by (simp add: padded_address_strip bot0_def)
  have c4': "rows (wallets (snd (check_wallet ?e padded_address bot0)))
       = [\<lparr>col_id = 1, col_wallet_address = example_address, col_has_nft = 1\<rparr>]"
    unfolding c4 by (simp add: padded_address_strip bot0_def upsert_def next_rowid_def example_env_def)
  from h1 h2 h3 c1 c2 c3' c4' show ?thesis by blast
qed

end
